theory Spec2Isabelle
  imports Complex_Main "HOL-Library.Word" "HOL-Library.Sublist"
begin

section \<open>Strings of the experiment-creation logic\<close>

text \<open>
  A JavaScript string is a sequence of UTF-16 code units. The regular expressions of
  \<^verbatim>\<open>generateFeatureFlagKey\<close> carry no \<^verbatim>\<open>u\<close> flag, so they work on code units too.
  Literals of the source are written \<open>js ''...''\<close>. User-facing messages, which
  are constants of the source and never processed, are kept as HOL strings.
\<close>

type_synonym code_unit = "16 word"
type_synonym jsstring = "code_unit list"

definition js :: "string \<Rightarrow> jsstring" where
  "js s = map (\<lambda>c. of_nat (of_char c)) s"

text \<open>
  \<^verbatim>\<open>String(n)\<close> inside a template literal, for a non-negative integer: its decimal
  digits. (A JavaScript number is a double; the counters rendered here are array lengths
  and loop counters bounded by the size of a \<^verbatim>\<open>Set\<close>, far below \<open>2^53\<close>, where
  doubles are exact integers and print without an exponent.)
\<close>

function decimal :: "nat \<Rightarrow> jsstring" where
  "decimal n = (if n < 10 then [0x30 + of_nat n]
                else decimal (n div 10) @ [0x30 + of_nat (n mod 10)])"
  by pat_completeness auto
termination
  by (relation "measure id") auto

declare decimal.simps [simp del]

text \<open>
  \<^verbatim>\<open>String.prototype.toLowerCase\<close>. The model keeps everything the replace that follows
  it can observe: \<^verbatim>\<open>A-Z\<close> become \<^verbatim>\<open>a-z\<close>; the two code units outside ASCII whose
  Unicode lower case contains an ASCII letter are mapped as Unicode does (U+0130 to
  \<^verbatim>\<open>i\<close> followed by U+0307, the Kelvin sign U+212A to \<^verbatim>\<open>k\<close>); every other code
  unit from \<open>0x80\<close> on lowercases to one or more code units from \<open>0x80\<close> on, all of
  which the character class below treats alike, and is left as it is.
\<close>

definition toLowerCase_unit :: "code_unit \<Rightarrow> jsstring" where
  "toLowerCase_unit c =
     (if 0x41 \<le> c \<and> c \<le> 0x5A then [c + 0x20]
      else if c = 0x130 then [0x69, 0x307]
      else if c = 0x212A then [0x6B]
      else [c])"

definition toLowerCase :: "jsstring \<Rightarrow> jsstring" where
  "toLowerCase s = concat (map toLowerCase_unit s)"

text \<open>The character class \<^verbatim>\<open>[A-Za-z0-9-_]\<close>; \<open>0x2D\<close> is the dash.\<close>

definition key_class :: "code_unit \<Rightarrow> bool" where
  "key_class c \<longleftrightarrow>
     (0x41 \<le> c \<and> c \<le> 0x5A) \<or> (0x61 \<le> c \<and> c \<le> 0x7A) \<or> (0x30 \<le> c \<and> c \<le> 0x39)
     \<or> c = 0x2D \<or> c = 0x5F"

text \<open>
  \<^verbatim>\<open>.replace(/[^A-Za-z0-9-_]+/g, '-')\<close>: scanning from the left, each greedy match of
  one or more code units outside the class is replaced by one dash.
\<close>

function replace_disallowed :: "jsstring \<Rightarrow> jsstring" where
  "replace_disallowed [] = []"
| "replace_disallowed (c # cs) =
     (if key_class c then c # replace_disallowed cs
      else 0x2D # replace_disallowed (dropWhile (\<lambda>x. \<not> key_class x) cs))"
  by pat_completeness auto
termination
  by (relation "measure length") (auto simp: less_Suc_eq_le length_dropWhile_le)

text \<open>\<^verbatim>\<open>.replace(/-+$/, '')\<close> and \<^verbatim>\<open>.replace(/^-+/, '')\<close>.\<close>

definition strip_trailing_dashes :: "jsstring \<Rightarrow> jsstring" where
  "strip_trailing_dashes s = rev (dropWhile (\<lambda>c. c = 0x2D) (rev s))"

definition strip_leading_dashes :: "jsstring \<Rightarrow> jsstring" where
  "strip_leading_dashes s = dropWhile (\<lambda>c. c = 0x2D) s"

definition baseKey :: "jsstring \<Rightarrow> jsstring" where
  "baseKey nm =
     strip_leading_dashes (strip_trailing_dashes (replace_disallowed (toLowerCase nm)))"

text \<open>The template literal \<^verbatim>\<open>`${baseKey}-${counter}`\<close>.\<close>

definition candidate :: "jsstring \<Rightarrow> nat \<Rightarrow> jsstring" where
  "candidate base counter = base @ 0x2D # decimal counter"

text \<open>
  The \<^verbatim>\<open>while (unavailableKeys.has(key))\<close> loop with its two variables. Nothing in
  the loop bounds the number of rounds, so not returning is the value \<open>None\<close>.
\<close>

partial_function (option) collision_loop ::
  "jsstring \<Rightarrow> jsstring set \<Rightarrow> jsstring \<Rightarrow> nat \<Rightarrow> jsstring option" where
  "collision_loop base unavailableKeys k counter =
     (if k \<in> unavailableKeys
      then collision_loop base unavailableKeys (candidate base counter) (counter + 1)
      else Some k)"

definition generateFeatureFlagKey :: "jsstring \<Rightarrow> jsstring set \<Rightarrow> jsstring option" where
  "generateFeatureFlagKey nm unavailableKeys =
     collision_loop (baseKey nm) unavailableKeys (baseKey nm) 1"

text \<open>
  \<^verbatim>\<open>String.prototype.trim\<close> removes white space and line terminators from both ends.
\<close>

definition is_whitespace :: "code_unit \<Rightarrow> bool" where
  "is_whitespace c \<longleftrightarrow>
     (0x09 \<le> c \<and> c \<le> 0x0D) \<or> c = 0x20 \<or> c = 0xA0 \<or> c = 0x1680
     \<or> (0x2000 \<le> c \<and> c \<le> 0x200A) \<or> c = 0x2028 \<or> c = 0x2029 \<or> c = 0x202F
     \<or> c = 0x205F \<or> c = 0x3000 \<or> c = 0xFEFF"

definition trim :: "jsstring \<Rightarrow> jsstring" where
  "trim s = rev (dropWhile is_whitespace (rev (dropWhile is_whitespace s)))"

text \<open>\<^verbatim>\<open>!s?.trim()\<close>: the empty string is the only falsy string.\<close>

definition blank :: "jsstring \<Rightarrow> bool" where
  "blank s \<longleftrightarrow> trim s = []"

text \<open>
  \<^verbatim>\<open>encodeURIComponent\<close> throws a \<^verbatim>\<open>URIError\<close> exactly on a string with a lone
  surrogate, that is, one that is not well-formed UTF-16.
\<close>

definition high_surrogate :: "code_unit \<Rightarrow> bool" where
  "high_surrogate c \<longleftrightarrow> 0xD800 \<le> c \<and> c \<le> 0xDBFF"

definition low_surrogate :: "code_unit \<Rightarrow> bool" where
  "low_surrogate c \<longleftrightarrow> 0xDC00 \<le> c \<and> c \<le> 0xDFFF"

fun well_formed :: "jsstring \<Rightarrow> bool" where
  "well_formed [] = True"
| "well_formed [c] = (\<not> high_surrogate c \<and> \<not> low_surrogate c)"
| "well_formed (c # d # cs) =
     (if high_surrogate c then low_surrogate d \<and> well_formed cs
      else \<not> low_surrogate c \<and> well_formed (d # cs))"

section \<open>State of \<^verbatim>\<open>createExperimentLogic\<close>\<close>

text \<open>
  \<^verbatim>\<open>MultivariateFlagVariant\<close>; the optional \<^verbatim>\<open>name\<close> is absent in the two default
  variants. Percentages are the integers the form stores
  (\<^verbatim>\<open>parseInt(...) || 0\<close> in the view).
\<close>

record MultivariateFlagVariant =
  variant_key :: jsstring
  variant_name :: "jsstring option"
  rollout_percentage :: int

text \<open>The fields of \<^verbatim>\<open>FeatureFlagType\<close> this logic reads.\<close>

record FeatureFlagType =
  flag_key :: jsstring
  flag_name :: "jsstring option"

text \<open>
  The fields of the form the listeners read or write;
  \<open>feature_flag_variants\<close> is \<^verbatim>\<open>parameters.feature_flag_variants\<close>, which every
  reader guards with \<^verbatim>\<open>|| []\<close> (\<open>None\<close> is \<^verbatim>\<open>undefined\<close>).
\<close>

record experiment_form =
  form_name :: jsstring
  feature_flag_key :: jsstring
  feature_flag_variants :: "MultivariateFlagVariant list option"

datatype flag_mode = New | Existing

text \<open>
  The values of the logic. \<open>featureFlagValidation\<close> is the value of the loader of that
  name: \<open>None\<close> is \<^verbatim>\<open>null\<close>, \<open>Some b\<close> is \<^verbatim>\<open>{ available: b }\<close>. \<open>in_flight\<close> and
  \<open>loader_calls\<close> are not values of the source: they hold the registry lookups whose
  \<^verbatim>\<open>await api.get(...)\<close> has not returned yet, each with the key its loader call was
  started with, under the number of its loader call.
\<close>

record logic_values =
  experimentForm :: experiment_form
  featureFlagMode :: flag_mode
  selectedFeatureFlag :: "FeatureFlagType option"
  featureFlagKeyValidationError :: "string option"
  featureFlagValidation :: "bool option"
  existingFeatureFlags :: "FeatureFlagType list"
  in_flight :: "(nat \<times> jsstring) list"
  loader_calls :: nat

text \<open>What a listener does beyond changing values.\<close>

datatype effect =
    ToastError string
  | TouchExperimentFormField string
  | ApiGet jsstring
  | ApiCreate experiment_form

definition NEW_EXPERIMENT :: experiment_form where
  "NEW_EXPERIMENT =
     \<lparr>form_name = [], feature_flag_key = [],
      feature_flag_variants = Some
        [\<lparr>variant_key = js ''control'', variant_name = None, rollout_percentage = 50\<rparr>,
         \<lparr>variant_key = js ''test'', variant_name = None, rollout_percentage = 50\<rparr>]\<rparr>"

definition initial_values :: logic_values where
  "initial_values =
     \<lparr>experimentForm = NEW_EXPERIMENT, featureFlagMode = New, selectedFeatureFlag = None,
      featureFlagKeyValidationError = None, featureFlagValidation = None,
      existingFeatureFlags = [], in_flight = [], loader_calls = 0\<rparr>"

section \<open>Variant rollout allocation\<close>

text \<open>The selector \<^verbatim>\<open>variants\<close>, and the same guard inside the listeners.\<close>

definition variants :: "logic_values \<Rightarrow> MultivariateFlagVariant list" where
  "variants s = (case feature_flag_variants (experimentForm s) of None \<Rightarrow> [] | Some vs \<Rightarrow> vs)"

text \<open>
  The selector \<^verbatim>\<open>variantPercentageSum\<close>: a left fold from \<open>0\<close>;
  \<^verbatim>\<open>rollout_percentage || 0\<close> is the identity on integers.
\<close>

definition variantPercentageSum :: "logic_values \<Rightarrow> int" where
  "variantPercentageSum s = foldl (\<lambda>sum variant. sum + rollout_percentage variant) 0 (variants s)"

text \<open>
  \<^verbatim>\<open>setExperimentFormValue('parameters', {...parameters, feature_flag_variants: vs})\<close>.
  The listener on \<^verbatim>\<open>setExperimentFormValue\<close> acts on the field \<^verbatim>\<open>name\<close> only.
\<close>

definition set_feature_flag_variants ::
  "MultivariateFlagVariant list \<Rightarrow> logic_values \<Rightarrow> logic_values" where
  "set_feature_flag_variants vs s =
     s\<lparr>experimentForm := (experimentForm s)\<lparr>feature_flag_variants := Some vs\<rparr>\<rparr>"

definition addVariant :: "logic_values \<Rightarrow> logic_values \<times> effect list" where
  "addVariant s =
     (let vs = variants s;
          newVariant = \<lparr>variant_key = js ''variant-'' @ decimal (length vs + 1),
                        variant_name = Some [], rollout_percentage = 0\<rparr>
      in (set_feature_flag_variants (vs @ [newVariant]) s, []))"

text \<open>
  \<^verbatim>\<open>variants.filter((_, i) => i !== index)\<close>; \<open>index\<close> is whatever integer the
  caller passes.
\<close>

definition removeVariant :: "int \<Rightarrow> logic_values \<Rightarrow> logic_values \<times> effect list" where
  "removeVariant index s =
     (let vs = variants s
      in if length vs \<le> 2
         then (s, [ToastError ''Experiments must have at least 2 variants''])
         else (set_feature_flag_variants
                 (map snd (filter (\<lambda>(i, _). int i \<noteq> index) (enumerate 0 vs))) s, []))"

text \<open>
  \<^verbatim>\<open>Math.round\<close> rounds to the nearest integer, a tie towards \<open>+\<infinity>\<close>. The quotient
  \<^verbatim>\<open>100 / numVariants\<close> is a double; it is a tie only for 8, 40 and 200 variants, where
  the double is exact, and otherwise stays farther from a tie than a double's rounding
  error for every possible array length, so the real quotient rounds alike.
\<close>

definition Math_round :: "real \<Rightarrow> int" where
  "Math_round x = \<lfloor>x + 1 / 2\<rfloor>"

definition distributeVariantsEqually :: "logic_values \<Rightarrow> logic_values \<times> effect list" where
  "distributeVariantsEqually s =
     (let vs = variants s; numVariants = length vs
      in if numVariants = 0 then (s, [])
         else
           let percentageRounded = Math_round (100 / real numVariants);
               totalRounded = percentageRounded * int numVariants;
               delta = totalRounded - 100;
               updatedVariants =
                 map (\<lambda>(index, variant).
                        variant\<lparr>rollout_percentage :=
                          (if index = numVariants - 1 then percentageRounded - delta
                           else percentageRounded)\<rparr>)
                     (enumerate 0 vs)
           in (set_feature_flag_variants updatedVariants s, []))"

section \<open>Uniqueness validation of the flag key\<close>

text \<open>
  What \<^verbatim>\<open>await api.get(...)\<close> gives: the promise is rejected, or it resolves to a
  response whose \<^verbatim>\<open>results\<close> may be missing (read with \<^verbatim>\<open>?.\<close>).
\<close>

datatype api_result = Rejected | Resolved "FeatureFlagType list option"

text \<open>
  The loader \<^verbatim>\<open>featureFlagValidation\<close> is declared inside \<^verbatim>\<open>loaders(...)\<close>. Its actions
  \<^verbatim>\<open>validateFeatureFlagKeySuccess\<close> and \<^verbatim>\<open>validateFeatureFlagKeyFailure\<close> are not among
  the \<^verbatim>\<open>actions({...})\<close> of the logic: the loaders plugin makes them, as it makes
  \<^verbatim>\<open>loadExistingFeatureFlagsSuccess\<close>, through which \<^verbatim>\<open>values.existingFeatureFlags\<close>
  gets what \<^verbatim>\<open>loadExistingFeatureFlags\<close> returns. The Success action carries the new
  value of the loader and the payload of the call; the Failure action carries the error
  text.
\<close>

datatype loader_action =
    validateFeatureFlagKeySuccess "bool option" jsstring
  | validateFeatureFlagKeyFailure string

text \<open>The reducer \<^verbatim>\<open>featureFlagKeyValidationError\<close> of the source.\<close>

fun featureFlagKeyValidationError_reducer :: "string option \<Rightarrow> loader_action \<Rightarrow> string option" where
  "featureFlagKeyValidationError_reducer _ (validateFeatureFlagKeySuccess _ _) = None"
| "featureFlagKeyValidationError_reducer _ (validateFeatureFlagKeyFailure error) = Some error"

text \<open>The value of the loader: it becomes what a Success action carries.\<close>

fun featureFlagValidation_reducer :: "bool option \<Rightarrow> loader_action \<Rightarrow> bool option" where
  "featureFlagValidation_reducer _ (validateFeatureFlagKeySuccess v _) = v"
| "featureFlagValidation_reducer state (validateFeatureFlagKeyFailure _) = state"

definition dispatch :: "loader_action \<Rightarrow> logic_values \<Rightarrow> logic_values" where
  "dispatch a s =
     s\<lparr>featureFlagKeyValidationError :=
         featureFlagKeyValidationError_reducer (featureFlagKeyValidationError s) a,
       featureFlagValidation :=
         featureFlagValidation_reducer (featureFlagValidation s) a\<rparr>"

text \<open>
  What the loader body does by itself: the actions it dispatches, in order, and the value
  it returns.
\<close>

record loader_result =
  dispatched :: "loader_action list"
  returned :: "bool option"

text \<open>
  The body of \<^verbatim>\<open>validateFeatureFlagKey\<close> up to its \<^verbatim>\<open>await\<close>: \<open>Inl\<close> when it ends
  before any request (a blank key, or \<^verbatim>\<open>encodeURIComponent\<close> throwing inside the
  \<^verbatim>\<open>try\<close>), \<open>Inr\<close> the key searched for when the request goes out.
\<close>

definition validate_before_await :: "jsstring \<Rightarrow> loader_result + jsstring" where
  "validate_before_await k =
     (if blank k
      then Inl \<lparr>dispatched = [validateFeatureFlagKeyFailure ''Feature flag key is required''],
                returned = None\<rparr>
      else if \<not> well_formed k
      then Inl \<lparr>dispatched = [validateFeatureFlagKeyFailure ''Error validating feature flag key''],
                returned = None\<rparr>
      else Inr k)"

text \<open>The rest of the body, once the \<^verbatim>\<open>await\<close> has returned or thrown.\<close>

definition validate_after_await :: "jsstring \<Rightarrow> api_result \<Rightarrow> loader_result" where
  "validate_after_await k response =
     (case response of
        Rejected \<Rightarrow>
          \<lparr>dispatched = [validateFeatureFlagKeyFailure ''Error validating feature flag key''],
           returned = None\<rparr>
      | Resolved results \<Rightarrow>
          (case find (\<lambda>flag. flag_key flag = k) (case results of None \<Rightarrow> [] | Some fs \<Rightarrow> fs) of
             Some existingFlag \<Rightarrow>
               \<lparr>dispatched = [validateFeatureFlagKeyFailure ''This feature flag key is already in use''],
                returned = Some False\<rparr>
           | None \<Rightarrow>
               \<lparr>dispatched = [validateFeatureFlagKeySuccess (Some True) k],
                returned = Some True\<rparr>))"

text \<open>
  A loader body that returns, rather than throws, has succeeded for the plugin: once the
  body has returned, the plugin dispatches the Success action with the value returned. The
  body above catches what is thrown inside it and always returns. So what a run of the
  loader does to the values is the body's own dispatches, followed by the plugin's Success.
\<close>

definition loader_settled :: "jsstring \<Rightarrow> loader_result \<Rightarrow> logic_values \<Rightarrow> logic_values" where
  "loader_settled k r s =
     dispatch (validateFeatureFlagKeySuccess (returned r) k)
       (foldl (\<lambda>t a. dispatch a t) s (dispatched r))"

text \<open>
  The whole loader run, the registry answering as \<open>api\<close> says: the values after it, and
  the requests made.
\<close>

definition validateFeatureFlagKey ::
  "(jsstring \<Rightarrow> api_result) \<Rightarrow> jsstring \<Rightarrow> logic_values \<Rightarrow> logic_values \<times> effect list" where
  "validateFeatureFlagKey api k s =
     (case validate_before_await k of
        Inl r \<Rightarrow> (loader_settled k r s, [])
      | Inr q \<Rightarrow> (loader_settled q (validate_after_await q (api q)) s, [ApiGet q]))"

text \<open>
  The same run as two events, so that other events can come between the request and its
  response: the start of the loader call, and the arrival of the response to the call
  numbered \<open>n\<close>. A run that makes no request is over with its start.
\<close>

definition start_validateFeatureFlagKey :: "jsstring \<Rightarrow> logic_values \<Rightarrow> logic_values \<times> effect list" where
  "start_validateFeatureFlagKey k s =
     (let n = loader_calls s; s1 = s\<lparr>loader_calls := n + 1\<rparr>
      in case validate_before_await k of
           Inl r \<Rightarrow> (loader_settled k r s1, [])
         | Inr q \<Rightarrow> (s1\<lparr>in_flight := in_flight s1 @ [(n, q)]\<rparr>, [ApiGet q]))"

definition finish_validateFeatureFlagKey :: "nat \<Rightarrow> api_result \<Rightarrow> logic_values \<Rightarrow> logic_values" where
  "finish_validateFeatureFlagKey n response s =
     (case map_of (in_flight s) n of
        None \<Rightarrow> s
      | Some q \<Rightarrow>
          loader_settled q (validate_after_await q response)
            (s\<lparr>in_flight := filter (\<lambda>(i, _). i \<noteq> n) (in_flight s)\<rparr>))"

text \<open>
  The listener \<^verbatim>\<open>updateFeatureFlagKey\<close>, when its debounce timer fires (the 500 ms of
  the timer are not modelled).
\<close>

definition updateFeatureFlagKey :: "jsstring \<Rightarrow> logic_values \<Rightarrow> logic_values \<times> effect list" where
  "updateFeatureFlagKey k s =
     (if \<not> blank k then start_validateFeatureFlagKey (trim k) s else (s, []))"

text \<open>
  The events of a form session that touch the validation: the debounced listener firing,
  the action \<^verbatim>\<open>validateFeatureFlagKey\<close> dispatched directly (as
  \<^verbatim>\<open>generateFeatureFlagKeyFromName\<close> does), and a response arriving.
\<close>

datatype event =
    UpdateFeatureFlagKey jsstring
  | ValidateFeatureFlagKey jsstring
  | Response nat api_result

fun step :: "logic_values \<Rightarrow> event \<Rightarrow> logic_values" where
  "step s (UpdateFeatureFlagKey k) = fst (updateFeatureFlagKey k s)"
| "step s (ValidateFeatureFlagKey k) = fst (start_validateFeatureFlagKey k s)"
| "step s (Response n response) = finish_validateFeatureFlagKey n response s"

definition run :: "logic_values \<Rightarrow> event list \<Rightarrow> logic_values" where
  "run s es = foldl step s es"

section \<open>Saving\<close>










section \<open>The slug generator as the specification words it\<close>

text \<open>
  "Replace every maximal run of characters outside the class with a single dash": a code
  unit of the class stays; one outside the class becomes a dash when it opens a run, and
  vanishes when the code unit before it is outside the class too. Each code unit is paired
  with that fact about its predecessor.
\<close>

definition collapse_unit :: "bool \<Rightarrow> code_unit \<Rightarrow> jsstring" where
  "collapse_unit after_outside c =
     (if key_class c then [c] else if after_outside then [] else [0x2D])"

definition collapse_runs :: "jsstring \<Rightarrow> jsstring" where
  "collapse_runs s = concat (map2 collapse_unit (False # map (\<lambda>c. \<not> key_class c) s) s)"

text \<open>"Strip leading and trailing dashes", in the order of the words.\<close>

definition strip_dashes :: "jsstring \<Rightarrow> jsstring" where
  "strip_dashes s = rev (dropWhile (\<lambda>c. c = 0x2D) (rev (dropWhile (\<lambda>c. c = 0x2D) s)))"

definition normalize :: "jsstring \<Rightarrow> jsstring" where
  "normalize nm = strip_dashes (collapse_runs (toLowerCase nm))"

text \<open>
  "Return the base if absent from the reserved set, else the first of base-1, base-2, ...
  absent from it."
\<close>

definition spec_generateKey :: "jsstring \<Rightarrow> jsstring set \<Rightarrow> jsstring" where
  "spec_generateKey nm reserved =
     (let base = normalize nm
      in if base \<notin> reserved then base
         else base @ js ''-'' @
              decimal (LEAST n. 1 \<le> n \<and> base @ js ''-'' @ decimal n \<notin> reserved))"

text \<open>A name "consisting only of characters outside the class".\<close>

definition only_disallowed :: "jsstring \<Rightarrow> bool" where
  "only_disallowed s \<longleftrightarrow> list_all (\<lambda>c. \<not> key_class c) s"

section \<open>Sample states used by the statements\<close>



text \<open>A registry that holds the one flag \<^verbatim>\<open>ab\<close>, and answers a search with it.\<close>

definition registry_ab :: api_result where
  "registry_ab = Resolved (Some [\<lparr>flag_key = js ''ab'', flag_name = None\<rparr>])"

section \<open>Key generation: the collision loop\<close>

text \<open>Decimal rendering is injective, hence so are the candidates of one base.\<close>

lemma digit_inj:
  assumes "a < 10" "b < 10" "(0x30 + of_nat a :: code_unit) = 0x30 + of_nat b"
  shows "a = b"
proof -
  from assms(3) have "(of_nat a :: code_unit) = of_nat b" by simp
  then have "unat (of_nat a :: code_unit) = unat (of_nat b :: code_unit)" by simp
  then have "a mod 2 ^ 16 = b mod 2 ^ 16" by (simp add: unat_of_nat)
  with assms(1,2) show ?thesis by simp
qed

lemma decimal_not_Nil: "decimal n \<noteq> []"
  by (subst decimal.simps) simp

lemma decimal_inj: "decimal n = decimal m \<Longrightarrow> n = m"
proof (induction n arbitrary: m rule: decimal.induct)
  case (1 n)
  show ?case
  proof (cases "n < 10")
    case n: True
    show ?thesis
    proof (cases "m < 10")
      case True
      with n "1.prems" show ?thesis
        by (simp add: decimal.simps [of n] decimal.simps [of m] digit_inj)
    next
      case False
      with n "1.prems" decimal_not_Nil [of "m div 10"] show ?thesis
        by (simp add: decimal.simps [of n] decimal.simps [of m])
    qed
  next
    case n: False
    show ?thesis
    proof (cases "m < 10")
      case True
      with n "1.prems" decimal_not_Nil [of "n div 10"] show ?thesis
        by (simp add: decimal.simps [of n] decimal.simps [of m])
    next
      case False
      with n "1.prems" have eq: "decimal (n div 10) = decimal (m div 10)"
        and d: "(0x30 + of_nat (n mod 10) :: code_unit) = 0x30 + of_nat (m mod 10)"
        by (simp_all add: decimal.simps [of n] decimal.simps [of m])
      from "1.IH" [OF n eq] have q: "n div 10 = m div 10" .
      from d have r: "n mod 10 = m mod 10" by (intro digit_inj) simp_all
      from q r show ?thesis by (metis div_mult_mod_eq)
    qed
  qed
qed

lemma candidate_inj: "candidate base i = candidate base j \<Longrightarrow> i = j"
  by (simp add: candidate_def decimal_inj)

lemma inj_candidate: "inj (candidate base)"
  by (rule injI) (rule candidate_inj)

lemma absent_candidate_exists:
  assumes "finite R"
  shows "\<exists>j\<ge>c. candidate base j \<notin> R"
proof (rule ccontr)
  assume "\<not> ?thesis"
  then have sub: "candidate base ` {c..} \<subseteq> R" by auto
  have "infinite (candidate base ` {c..})"
    using inj_candidate [of base] infinite_Ici [of c]
    by (metis finite_imageD inj_on_subset subset_UNIV)
  with sub assms show False by (auto dest: finite_subset)
qed


lemma collision_loop_from:
  assumes "candidate base j \<notin> R" "c \<le> j" "\<forall>i. c \<le> i \<and> i < j \<longrightarrow> candidate base i \<in> R" "k \<in> R"
  shows "collision_loop base R k c = Some (candidate base j)"
  using assms
proof (induction "j - c" arbitrary: c k)
  case 0
  then have "c = j" by simp
  have "collision_loop base R k c = collision_loop base R (candidate base c) (c + 1)"
    using \<open>k \<in> R\<close> by (subst collision_loop.simps) simp
  also have "\<dots> = Some (candidate base c)"
    using \<open>candidate base j \<notin> R\<close> \<open>c = j\<close> by (subst collision_loop.simps) simp
  finally show ?case using \<open>c = j\<close> by simp
next
  case (Suc d)
  then have cj: "c < j" by simp
  with Suc.prems(3) have in_R: "candidate base c \<in> R" by blast
  have step: "collision_loop base R k c = collision_loop base R (candidate base c) (c + 1)"
    using \<open>k \<in> R\<close> by (subst collision_loop.simps) simp
  have d: "d = j - (c + 1)" using Suc.hyps(2) by simp
  have le: "c + 1 \<le> j" using cj by simp
  have all: "\<forall>i. c + 1 \<le> i \<and> i < j \<longrightarrow> candidate base i \<in> R"
    using Suc.prems(3) by auto
  from Suc.hyps(1) [OF d Suc.prems(1) le all in_R] step show ?case by simp
qed

lemma collision_loop_result:
  assumes "finite R"
  shows "collision_loop base R base 1 =
     Some (if base \<notin> R then base
           else candidate base (LEAST j. 1 \<le> j \<and> candidate base j \<notin> R))"
proof (cases "base \<in> R")
  case False
  then show ?thesis by (subst collision_loop.simps) simp
next
  case True
  let ?P = "\<lambda>j. 1 \<le> j \<and> candidate base j \<notin> R"
  from absent_candidate_exists [OF assms, of 1 base] obtain j0 where "?P j0" by blast
  then have l: "?P (Least ?P)" by (rule LeastI)
  have m: "\<forall>i. 1 \<le> i \<and> i < Least ?P \<longrightarrow> candidate base i \<in> R"
    using not_less_Least [of _ ?P] by blast
  from l have l1: "candidate base (Least ?P) \<notin> R" and l2: "1 \<le> Least ?P" by simp_all
  from collision_loop_from [OF l1 l2 m True] True show ?thesis by simp
qed

text \<open>
  Claim C2: for every name and every finite reserved set, \<^verbatim>\<open>generateFeatureFlagKey\<close>
  returns a key, and that key is not a member of the reserved set.
\<close>

theorem generated_key_not_reserved:
  assumes "finite reserved"
  shows "\<exists>k. generateFeatureFlagKey nm reserved = Some k \<and> k \<notin> reserved"
proof (cases "baseKey nm \<in> reserved")
  case False
  with collision_loop_result [OF assms, of "baseKey nm"] show ?thesis
    by (simp add: generateFeatureFlagKey_def)
next
  case True
  let ?P = "\<lambda>j. 1 \<le> j \<and> candidate (baseKey nm) j \<notin> reserved"
  from absent_candidate_exists [OF assms, of 1 "baseKey nm"] obtain j0 where "?P j0" by blast
  then have "?P (Least ?P)" by (rule LeastI)
  with True collision_loop_result [OF assms, of "baseKey nm"] show ?thesis
    by (simp add: generateFeatureFlagKey_def)
qed

theorem generated_key_not_reserved_witness:
  "finite {js ''test'', js ''test-1''} \<and>
   (\<exists>k. generateFeatureFlagKey (js ''test'') {js ''test'', js ''test-1''} = Some k
        \<and> k \<notin> {js ''test'', js ''test-1''})"
  using generated_key_not_reserved [of "{js ''test'', js ''test-1''}" "js ''test''"]
  by simp

text \<open>
  Claim C10: for every name and every finite reserved set the collision loop terminates:
  some suffix counter gives a candidate absent from the reserved set, and the function
  returns a key.
\<close>

theorem generateFeatureFlagKey_terminates:
  assumes "finite reserved"
  shows "(\<exists>j\<ge>1. candidate (baseKey nm) j \<notin> reserved)
         \<and> (\<exists>k. generateFeatureFlagKey nm reserved = Some k)"
proof
  show "\<exists>j\<ge>1. candidate (baseKey nm) j \<notin> reserved"
    by (rule absent_candidate_exists [OF assms])
  show "\<exists>k. generateFeatureFlagKey nm reserved = Some k"
    using collision_loop_result [OF assms, of "baseKey nm"]
    by (simp add: generateFeatureFlagKey_def)
qed

theorem generateFeatureFlagKey_terminates_witness:
  "finite {js ''test''} \<and> (\<exists>j\<ge>1. candidate (baseKey (js ''test'')) j \<notin> {js ''test''})
   \<and> (\<exists>k. generateFeatureFlagKey (js ''test'') {js ''test''} = Some k)"
  using generateFeatureFlagKey_terminates [of "{js ''test''}" "js ''test''"]
  by simp

section \<open>Key generation: normalisation\<close>

text \<open>
  The replace of the source scans greedily; the specification speaks of maximal runs. The
  two agree, and the two strips commute.
\<close>

lemma collapse_outside_dropWhile:
  "concat (map2 collapse_unit (True # map (\<lambda>c. \<not> key_class c) cs) cs) =
   concat (map2 collapse_unit (True # map (\<lambda>c. \<not> key_class c) (dropWhile (\<lambda>x. \<not> key_class x) cs))
      (dropWhile (\<lambda>x. \<not> key_class x) cs))"
  by (induction cs) (simp_all add: collapse_unit_def)

lemma collapse_replace:
  "concat (map2 collapse_unit (True # map (\<lambda>c. \<not> key_class c) cs) cs)
     = replace_disallowed (dropWhile (\<lambda>x. \<not> key_class x) cs)
   \<and> concat (map2 collapse_unit (False # map (\<lambda>c. \<not> key_class c) cs) cs) = replace_disallowed cs"
proof (induction cs rule: replace_disallowed.induct)
  case 1
  show ?case by simp
next
  case (2 c cs)
  show ?case
  proof (cases "key_class c")
    case True
    with 2 show ?thesis by (simp add: collapse_unit_def)
  next
    case False
    with 2 have "concat (map2 collapse_unit
          (True # map (\<lambda>c. \<not> key_class c) (dropWhile (\<lambda>x. \<not> key_class x) cs))
          (dropWhile (\<lambda>x. \<not> key_class x) cs))
        = replace_disallowed (dropWhile (\<lambda>x. \<not> key_class x) cs)"
      by simp
    with collapse_outside_dropWhile [of cs]
    have "concat (map2 collapse_unit (True # map (\<lambda>c. \<not> key_class c) cs) cs)
        = replace_disallowed (dropWhile (\<lambda>x. \<not> key_class x) cs)"
      by simp
    with False show ?thesis by (simp add: collapse_unit_def)
  qed
qed

lemma collapse_runs_eq: "collapse_runs s = replace_disallowed s"
  by (simp add: collapse_runs_def collapse_replace)

lemma strip_commute:
  "rev (dropWhile P (rev (dropWhile P s))) = dropWhile P (rev (dropWhile P (rev s)))"
proof (induction s)
  case Nil
  show ?case by simp
next
  case (Cons x xs)
  show ?case
  proof (cases "P x")
    case True
    have "dropWhile P (rev (dropWhile P (rev (x # xs)))) = dropWhile P (rev (dropWhile P (rev xs)))"
    proof (cases "\<forall>y\<in>set xs. P y")
      case all: True
      then have e: "dropWhile P (rev xs) = []" by simp
      from True all show ?thesis by (simp add: dropWhile_append e del: dropWhile_eq_Nil_conv)
    next
      case False
      with True show ?thesis by (auto simp: dropWhile_append)
    qed
    with True Cons show ?thesis by simp 
  next
    case False
    then have "rev (dropWhile P (rev (x # xs))) = x # rev (dropWhile P (rev xs))"
      by (simp add: dropWhile_append)
    with False show ?thesis by simp
  qed
qed

lemma normalize_eq: "normalize nm = baseKey nm"
  by (simp add: normalize_def baseKey_def strip_dashes_def strip_leading_dashes_def strip_trailing_dashes_def collapse_runs_eq strip_commute)

lemmas key_eval = generateFeatureFlagKey_def collision_loop.simps candidate_def decimal.simps
  baseKey_def js_def toLowerCase_def toLowerCase_unit_def key_class_def
  strip_leading_dashes_def strip_trailing_dashes_def

text \<open>
  Claim C5: \<^verbatim>\<open>generateFeatureFlagKey\<close> normalises the name by lowercasing, replacing
  every maximal run of characters outside \<^verbatim>\<open>[A-Za-z0-9-_]\<close> with one dash and
  stripping leading and trailing dashes, then returns the base if it is absent from the
  reserved set, else the first of base-1, base-2, ... absent from it. In particular
  "Pricing Page!!" with no reserved key gives "pricing-page", "test" with "test" reserved
  gives "test-1", and "test" with "test" and "test-1" reserved gives "test-2".
\<close>

theorem generateFeatureFlagKey_refines_spec:
  "(finite reserved \<longrightarrow> generateFeatureFlagKey nm reserved = Some (spec_generateKey nm reserved))
   \<and> generateFeatureFlagKey (js ''Pricing Page!!'') {} = Some (js ''pricing-page'')
   \<and> generateFeatureFlagKey (js ''test'') {js ''test''} = Some (js ''test-1'')
   \<and> generateFeatureFlagKey (js ''test'') {js ''test'', js ''test-1''} = Some (js ''test-2'')"
proof (intro conjI impI)
  assume "finite reserved"
  have dash: "js ''-'' = [0x2D]" by (simp add: js_def)
  from collision_loop_result [OF \<open>finite reserved\<close>, of "baseKey nm"]
  show "generateFeatureFlagKey nm reserved = Some (spec_generateKey nm reserved)"
    by (simp add: generateFeatureFlagKey_def spec_generateKey_def normalize_eq candidate_def dash Let_def)
next
  show "generateFeatureFlagKey (js ''Pricing Page!!'') {} = Some (js ''pricing-page'')"
    by (simp add: key_eval)
next
  show "generateFeatureFlagKey (js ''test'') {js ''test''} = Some (js ''test-1'')"
    by (simp add: key_eval)
next
  show "generateFeatureFlagKey (js ''test'') {js ''test'', js ''test-1''} = Some (js ''test-2'')"
    by (simp add: key_eval)
qed

theorem generateFeatureFlagKey_refines_spec_witness:
  "finite {js ''test''}
   \<and> generateFeatureFlagKey (js ''test'') {js ''test''} = Some (spec_generateKey (js ''test'') {js ''test''})
   \<and> spec_generateKey (js ''test'') {js ''test''} = js ''test-1''"
proof -
  have fin: "finite {js ''test''}" by simp
  from generateFeatureFlagKey_refines_spec [of "{js ''test''}" "js ''test''"] fin
  have "generateFeatureFlagKey (js ''test'') {js ''test''} = Some (spec_generateKey (js ''test'') {js ''test''})"
    and "generateFeatureFlagKey (js ''test'') {js ''test''} = Some (js ''test-1'')"
    by blast+
  with fin show ?thesis by simp
qed

section \<open>Key generation: names without any allowed character\<close>

lemma replace_only_disallowed:
  "only_disallowed s \<Longrightarrow> replace_disallowed s = (if s = [] then [] else [0x2D])"
proof (cases s)
  case Nil
  then show ?thesis by simp
next
  case (Cons c cs)
  assume "only_disallowed s"
  with Cons have c: "\<not> key_class c" and cs: "\<forall>x\<in>set cs. \<not> key_class x"
    by (simp_all add: only_disallowed_def list_all_iff)
  from cs have "dropWhile (\<lambda>x. \<not> key_class x) cs = []" by simp
  with c Cons show ?thesis by (simp del: dropWhile_eq_Nil_conv)
qed

lemma baseKey_only_disallowed:
  assumes "only_disallowed (toLowerCase nm)"
  shows "baseKey nm = []"
  using replace_only_disallowed [OF assms]
  by (simp add: baseKey_def strip_leading_dashes_def strip_trailing_dashes_def)

lemma toLowerCase_only_disallowed:
  assumes "only_disallowed nm" "0x130 \<notin> set nm" "0x212A \<notin> set nm"
  shows "only_disallowed (toLowerCase nm)"
  using assms
  by (induction nm) (auto simp: only_disallowed_def toLowerCase_def toLowerCase_unit_def key_class_def)

text \<open>
  Claim C6, as amended: for every name consisting only of characters outside
  \<^verbatim>\<open>[A-Za-z0-9-_]\<close>, none of them U+0130 or U+212A (whose lower case holds an ASCII
  letter), the normalised base is empty, and for every finite reserved set
  \<^verbatim>\<open>generateFeatureFlagKey\<close> returns: the empty string when the empty string is not
  reserved, and otherwise the first of "-1", "-2", ... absent from the reserved set, which
  is not empty.
\<close>

theorem disallowed_name_key:
  assumes "only_disallowed nm" "0x130 \<notin> set nm" "0x212A \<notin> set nm" "finite reserved"
  shows "baseKey nm = []
    \<and> generateFeatureFlagKey nm reserved =
        Some (if [] \<notin> reserved then []
              else js ''-'' @ decimal (LEAST n. 1 \<le> n \<and> js ''-'' @ decimal n \<notin> reserved))
    \<and> ([] \<in> reserved \<longrightarrow> generateFeatureFlagKey nm reserved \<noteq> Some [])"
proof -
  have dash: "js ''-'' = [0x2D]" by (simp add: js_def)
  have b: "baseKey nm = []"
    by (rule baseKey_only_disallowed) (rule toLowerCase_only_disallowed [OF assms(1-3)])
  from collision_loop_result [OF assms(4), of "[]"] b show ?thesis
    by (simp add: generateFeatureFlagKey_def candidate_def dash)
qed

theorem disallowed_name_key_witness:
  "only_disallowed (js ''!!!'') \<and> 0x130 \<notin> set (js ''!!!'') \<and> 0x212A \<notin> set (js ''!!!'') \<and> finite {[], js ''-1''}
   \<and> baseKey (js ''!!!'') = []
   \<and> generateFeatureFlagKey (js ''!!!'') {[], js ''-1''} = Some (js ''-2'')"
proof -
  have h1: "only_disallowed (js ''!!!'')" by (simp add: only_disallowed_def js_def key_class_def)
  have h2: "0x130 \<notin> set (js ''!!!'')" by (simp add: js_def)
  have h3: "0x212A \<notin> set (js ''!!!'')" by (simp add: js_def)
  have h4: "finite {[], js ''-1''}" by simp
  have e: "generateFeatureFlagKey (js ''!!!'') {[], js ''-1''} = Some (js ''-2'')"
    by (simp add: key_eval)
  from disallowed_name_key [OF h1 h2 h3 h4] have "baseKey (js ''!!!'') = []" by (rule conjunct1)
  with h1 h2 h3 h4 e show ?thesis by (simp only: simp_thms)
qed

text \<open>
  The claim as stated, that the key returned for such a name is never empty, fails: the
  loop body is not entered when the empty base is not reserved.
\<close>

theorem empty_key_counterexample:
  "only_disallowed (js ''!!!'') \<and> generateFeatureFlagKey (js ''!!!'') {} = Some []"
  by (simp add: key_eval only_disallowed_def)

section \<open>Variant rollout allocation: redistribution\<close>

lemmas allocator_eval = distributeVariantsEqually_def addVariant_def removeVariant_def
  initial_values_def NEW_EXPERIMENT_def variants_def set_feature_flag_variants_def
  variantPercentageSum_def Math_round_def Let_def enumerate_eq_zip upt_rec

lemma foldl_plus_sum_list:
  "foldl (\<lambda>sum v. sum + f v) a xs = a + sum_list (map f xs)" for a :: int
  by (induction xs arbitrary: a) simp_all

lemma variants_set [simp]: "variants (set_feature_flag_variants vs s) = vs"
  by (simp add: variants_def set_feature_flag_variants_def)

lemma map_enumerate_last:
  "vs \<noteq> [] \<Longrightarrow>
   map (\<lambda>(i, v). g (i = k + length vs - 1) v) (enumerate k vs)
     = map (g False) (butlast vs) @ [g True (last vs)]"
proof (induction vs arbitrary: k)
  case Nil
  then show ?case by simp
next
  case (Cons v vs)
  show ?case
  proof (cases "vs = []")
    case True
    then show ?thesis by simp
  next
    case False
    from Cons.IH [OF False, of "Suc k"] False show ?thesis by simp
  qed
qed

lemma distribute_variants:
  assumes "variants s \<noteq> []"
  shows "variants (fst (distributeVariantsEqually s)) =
     (let N = length (variants s); base = Math_round (100 / real N)
      in map (\<lambda>v. v\<lparr>rollout_percentage := base\<rparr>) (butlast (variants s))
         @ [(last (variants s))\<lparr>rollout_percentage := base - (base * int N - 100)\<rparr>])"
proof -
  let ?N = "length (variants s)"
  let ?b = "Math_round (100 / real ?N)"
  let ?g = "\<lambda>is_last v. v\<lparr>rollout_percentage := (if is_last then ?b - (?b * int ?N - 100) else ?b)\<rparr>"
  have "map (\<lambda>(i, v). ?g (i = 0 + ?N - 1) v) (enumerate 0 (variants s))
      = map (?g False) (butlast (variants s)) @ [?g True (last (variants s))]"
    by (rule map_enumerate_last [OF assms])
  with assms show ?thesis
    by (simp add: distributeVariantsEqually_def Let_def)
qed

text \<open>
  Claim C1: on a list of \<open>N \<ge> 1\<close> variants \<^verbatim>\<open>distributeVariantsEqually\<close> gives every
  variant but the last the share \<open>round (100 / N)\<close> and the last one
  \<open>round (100 / N) - (round (100 / N) * N - 100)\<close>, and the shares then sum to exactly
  100; on an empty list it does nothing.
\<close>

theorem distributeVariantsEqually_shares:
  "(variants s = [] \<longrightarrow> distributeVariantsEqually s = (s, []))
   \<and> (variants s \<noteq> [] \<longrightarrow>
       (let N = length (variants s); base = Math_round (100 / real N);
            vs' = variants (fst (distributeVariantsEqually s))
        in length vs' = N
           \<and> (\<forall>i<N - 1. rollout_percentage (vs' ! i) = base)
           \<and> rollout_percentage (vs' ! (N - 1)) = base - (base * int N - 100)
           \<and> variantPercentageSum (fst (distributeVariantsEqually s)) = 100))"
proof (intro conjI impI)
  assume "variants s = []"
  then show "distributeVariantsEqually s = (s, [])"
    by (simp add: distributeVariantsEqually_def)
next
  assume ne: "variants s \<noteq> []"
  let ?N = "length (variants s)"
  let ?b = "Math_round (100 / real ?N)"
  let ?vs' = "variants (fst (distributeVariantsEqually s))"
  have vs': "?vs' = map (\<lambda>v. v\<lparr>rollout_percentage := ?b\<rparr>) (butlast (variants s))
         @ [(last (variants s))\<lparr>rollout_percentage := ?b - (?b * int ?N - 100)\<rparr>]"
    using distribute_variants [OF ne] by (simp add: Let_def)
  have len: "length ?vs' = ?N" using ne by (simp add: vs')
  have front: "\<forall>i<?N - 1. rollout_percentage (?vs' ! i) = ?b"
    by (simp add: vs' nth_append)
  have tail: "rollout_percentage (?vs' ! (?N - 1)) = ?b - (?b * int ?N - 100)"
    by (simp add: vs' nth_append)
  have "sum_list (map rollout_percentage ?vs') = ?b * int (?N - 1) + (?b - (?b * int ?N - 100))"
    by (simp add: vs' comp_def sum_list_triv)
  also have "\<dots> = 100" using ne by (simp add: algebra_simps of_nat_diff Suc_leI)
  finally have "variantPercentageSum (fst (distributeVariantsEqually s)) = 100"
    by (simp add: variantPercentageSum_def foldl_plus_sum_list)
  with len front tail
  show "let N = length (variants s); base = Math_round (100 / real N);
            vs' = variants (fst (distributeVariantsEqually s))
        in length vs' = N
           \<and> (\<forall>i<N - 1. rollout_percentage (vs' ! i) = base)
           \<and> rollout_percentage (vs' ! (N - 1)) = base - (base * int N - 100)
           \<and> variantPercentageSum (fst (distributeVariantsEqually s)) = 100"
    by (simp add: Let_def)
qed

theorem distributeVariantsEqually_shares_witness:
  "variants (set_feature_flag_variants [] initial_values) = []
   \<and> distributeVariantsEqually (set_feature_flag_variants [] initial_values)
       = (set_feature_flag_variants [] initial_values, [])
   \<and> variants (fst (addVariant initial_values)) \<noteq> []
   \<and> map rollout_percentage (variants (fst (distributeVariantsEqually (fst (addVariant initial_values)))))
       = [33, 33, 34]
   \<and> variantPercentageSum (fst (distributeVariantsEqually (fst (addVariant initial_values)))) = 100"
proof -
  have e: "variants (set_feature_flag_variants [] initial_values) = []" by simp
  have n: "variants (fst (addVariant initial_values)) \<noteq> []" by (simp add: allocator_eval)
  have l: "map rollout_percentage
      (variants (fst (distributeVariantsEqually (fst (addVariant initial_values))))) = [33, 33, 34]"
    by (simp add: allocator_eval)
  from distributeVariantsEqually_shares [of "set_feature_flag_variants [] initial_values"] e
  have a: "distributeVariantsEqually (set_feature_flag_variants [] initial_values)
       = (set_feature_flag_variants [] initial_values, [])" by blast
  from distributeVariantsEqually_shares [of "fst (addVariant initial_values)"] n
  have b: "variantPercentageSum (fst (distributeVariantsEqually (fst (addVariant initial_values)))) = 100"
    by (simp add: Let_def)
  from e a n l b show ?thesis by (simp only: simp_thms)
qed

section \<open>Variant rollout allocation: removing and adding\<close>

lemma filter_enumerate_above:
  "k < m \<Longrightarrow> map snd (filter (\<lambda>(i, _). i \<noteq> k) (enumerate m vs)) = vs"
  by (induction vs arbitrary: m) auto

lemma filter_enumerate_delete:
  "n < length vs \<Longrightarrow>
   map snd (filter (\<lambda>(i, _). i \<noteq> k + n) (enumerate k vs)) = take n vs @ drop (Suc n) vs"
proof (induction vs arbitrary: k n)
  case Nil
  then show ?case by simp
next
  case (Cons v vs)
  show ?case
  proof (cases n)
    case 0
    then show ?thesis using filter_enumerate_above [of k "Suc k" vs] by simp
  next
    case (Suc m)
    with Cons.prems have "m < length vs" by simp
    from Cons.IH [OF this, of "Suc k"] Suc show ?thesis by simp
  qed
qed

lemma removeVariant_variants:
  assumes "2 < length (variants s)" "0 \<le> index" "index < int (length (variants s))"
  shows "variants (fst (removeVariant index s))
     = take (nat index) (variants s) @ drop (Suc (nat index)) (variants s)"
proof -
  from assms have n: "nat index < length (variants s)" by simp
  have "(\<lambda>(i, _). int i \<noteq> index) = (\<lambda>(i::nat, _::MultivariateFlagVariant). i \<noteq> 0 + nat index)"
    using assms(2) by (auto simp: fun_eq_iff)
  with filter_enumerate_delete [OF n, of 0] assms(1) show ?thesis
    by (simp add: removeVariant_def Let_def)
qed

text \<open>
  Claim C8: on a list of at most two variants \<^verbatim>\<open>removeVariant\<close> is rejected with a
  user-visible error and changes nothing; on a longer list and a valid index it deletes
  exactly the element at the index, the later elements moving down by one, and leaves
  every remaining share as it was.
\<close>

theorem removeVariant_guard_and_delete:
  "(length (variants s) \<le> 2 \<longrightarrow>
      removeVariant index s = (s, [ToastError ''Experiments must have at least 2 variants'']))
   \<and> (2 < length (variants s) \<and> 0 \<le> index \<and> index < int (length (variants s)) \<longrightarrow>
        snd (removeVariant index s) = []
      \<and> variants (fst (removeVariant index s))
          = take (nat index) (variants s) @ drop (Suc (nat index)) (variants s)
      \<and> length (variants (fst (removeVariant index s))) = length (variants s) - 1
      \<and> (\<forall>j<nat index. variants (fst (removeVariant index s)) ! j = variants s ! j)
      \<and> (\<forall>j. nat index \<le> j \<and> j < length (variants s) - 1 \<longrightarrow>
             variants (fst (removeVariant index s)) ! j = variants s ! Suc j))"
proof (intro conjI impI)
  assume "length (variants s) \<le> 2"
  then show "removeVariant index s = (s, [ToastError ''Experiments must have at least 2 variants''])"
    by (simp add: removeVariant_def Let_def)
next
  assume a: "2 < length (variants s) \<and> 0 \<le> index \<and> index < int (length (variants s))"
  then show "snd (removeVariant index s) = []"
    by (simp add: removeVariant_def Let_def)
  from a have eq: "variants (fst (removeVariant index s))
      = take (nat index) (variants s) @ drop (Suc (nat index)) (variants s)"
    by (intro removeVariant_variants) simp_all
  then show "variants (fst (removeVariant index s))
      = take (nat index) (variants s) @ drop (Suc (nat index)) (variants s)" .
  from a have n: "nat index < length (variants s)" by linarith
  from n show "length (variants (fst (removeVariant index s))) = length (variants s) - 1"
    by (simp add: eq)
  from n show "\<forall>j<nat index. variants (fst (removeVariant index s)) ! j = variants s ! j"
    by (simp add: eq nth_append)
  from n show "\<forall>j. nat index \<le> j \<and> j < length (variants s) - 1 \<longrightarrow>
      variants (fst (removeVariant index s)) ! j = variants s ! Suc j"
    by (auto simp: eq nth_append min_def)
qed

theorem removeVariant_guard_and_delete_witness:
  "length (variants initial_values) \<le> 2
   \<and> removeVariant 0 initial_values
       = (initial_values, [ToastError ''Experiments must have at least 2 variants''])
   \<and> 2 < length (variants (fst (addVariant initial_values)))
   \<and> (0::int) \<le> 1 \<and> 1 < int (length (variants (fst (addVariant initial_values))))
   \<and> map variant_key (variants (fst (removeVariant 1 (fst (addVariant initial_values)))))
       = [js ''control'', js ''variant-3'']
   \<and> map rollout_percentage (variants (fst (removeVariant 1 (fst (addVariant initial_values)))))
       = [50, 0]"
proof -
  have h1: "length (variants initial_values) \<le> 2" by (simp add: allocator_eval)
  have h2: "2 < length (variants (fst (addVariant initial_values)))
     \<and> (0::int) \<le> 1 \<and> 1 < int (length (variants (fst (addVariant initial_values))))"
    by (simp add: allocator_eval)
  from removeVariant_guard_and_delete [of initial_values 0] h1
  have a: "removeVariant 0 initial_values
       = (initial_values, [ToastError ''Experiments must have at least 2 variants''])" by blast
  from removeVariant_guard_and_delete [of "fst (addVariant initial_values)" 1] h2
  have "variants (fst (removeVariant 1 (fst (addVariant initial_values))))
      = take (nat 1) (variants (fst (addVariant initial_values)))
        @ drop (Suc (nat 1)) (variants (fst (addVariant initial_values)))" by blast
  then have b: "map variant_key (variants (fst (removeVariant 1 (fst (addVariant initial_values)))))
       = [js ''control'', js ''variant-3'']
     \<and> map rollout_percentage (variants (fst (removeVariant 1 (fst (addVariant initial_values)))))
       = [50, 0]"
    by (simp add: addVariant_def initial_values_def NEW_EXPERIMENT_def variants_def
        set_feature_flag_variants_def Let_def decimal.simps js_def)
  from h1 h2 a b show ?thesis by (simp only: simp_thms)
qed

lemma removeVariant_subseq: "subseq (variants (fst (removeVariant index s))) (variants s)"
proof (cases "length (variants s) \<le> 2")
  case True
  then show ?thesis by (simp add: removeVariant_def Let_def)
next
  case False
  have "subseq (map snd (filter (\<lambda>(i, _). int i \<noteq> index) (enumerate 0 (variants s))))
     (map snd (enumerate 0 (variants s)))"
    by (intro subseq_map subseq_filter_left)
  with False show ?thesis by (simp add: removeVariant_def Let_def)
qed

text \<open>
  Claim C9: on a list of \<open>N\<close> variants \<^verbatim>\<open>addVariant\<close> appends exactly one variant, with
  key \<^verbatim>\<open>variant-<N+1>\<close>, empty name and share 0; the variants already there keep their
  key, name, share and order. Neither adding nor removing renormalises a share: what
  \<^verbatim>\<open>removeVariant\<close> leaves is a subsequence of the variants before.
\<close>

theorem addVariant_appends:
  "variants (fst (addVariant s)) =
     variants s @ [\<lparr>variant_key = js ''variant-'' @ decimal (length (variants s) + 1),
                    variant_name = Some [], rollout_percentage = 0\<rparr>]
   \<and> snd (addVariant s) = []
   \<and> take (length (variants s)) (variants (fst (addVariant s))) = variants s
   \<and> subseq (variants (fst (removeVariant index s))) (variants s)"
  by (simp add: addVariant_def Let_def removeVariant_subseq)

theorem addVariant_appends_witness:
  "map variant_key (variants (fst (addVariant initial_values)))
     = [js ''control'', js ''test'', js ''variant-3'']
   \<and> map rollout_percentage (variants (fst (addVariant initial_values))) = [50, 50, 0]"
proof -
  from addVariant_appends [of initial_values]
  have "variants (fst (addVariant initial_values)) =
     variants initial_values @
       [\<lparr>variant_key = js ''variant-'' @ decimal (length (variants initial_values) + 1),
         variant_name = Some [], rollout_percentage = 0\<rparr>]" by blast
  then show ?thesis
    by (simp add: initial_values_def NEW_EXPERIMENT_def variants_def decimal.simps js_def)
qed

section \<open>Uniqueness validation: one run of the loader\<close>

lemmas validator_eval = validateFeatureFlagKey_def validate_before_await_def
  validate_after_await_def loader_settled_def dispatch_def blank_def trim_def is_whitespace_def
  high_surrogate_def low_surrogate_def js_def registry_ab_def

text \<open>
  Whatever the body dispatches, the Success action that follows it leaves no error text,
  and leaves the value the body returned as the value of the loader.
\<close>

lemma foldl_dispatch:
  "foldl (\<lambda>t a. dispatch a t) s as =
     s\<lparr>featureFlagKeyValidationError :=
         foldl featureFlagKeyValidationError_reducer (featureFlagKeyValidationError s) as,
       featureFlagValidation :=
         foldl featureFlagValidation_reducer (featureFlagValidation s) as\<rparr>"
  by (induction as arbitrary: s) (simp_all add: dispatch_def)

lemma loader_settled_values:
  "loader_settled k r s =
     s\<lparr>featureFlagKeyValidationError := None, featureFlagValidation := returned r\<rparr>"
  by (simp add: loader_settled_def foldl_dispatch) (simp add: dispatch_def)

lemma find_Some_member: "find P xs = Some x \<Longrightarrow> x \<in> set xs \<and> P x"
  by (induction xs) (auto split: if_splits)

lemma returned_after_await:
  "returned (validate_after_await k response) =
     (case response of
        Rejected \<Rightarrow> None
      | Resolved results \<Rightarrow>
          Some (\<not> (\<exists>flag\<in>set (case results of None \<Rightarrow> [] | Some fs \<Rightarrow> fs). flag_key flag = k)))"
proof (cases response)
  case Rejected
  then show ?thesis by (simp add: validate_after_await_def)
next
  case (Resolved results)
  let ?fs = "case results of None \<Rightarrow> [] | Some fs \<Rightarrow> fs"
  show ?thesis
  proof (cases "find (\<lambda>flag. flag_key flag = k) ?fs")
    case None
    then have "\<not> (\<exists>flag\<in>set ?fs. flag_key flag = k)" by (simp add: find_None_iff)
    with Resolved None show ?thesis by (simp add: validate_after_await_def)
  next
    case (Some existingFlag)
    from find_Some_member [OF this] have "\<exists>flag\<in>set ?fs. flag_key flag = k" by blast
    with Resolved Some show ?thesis by (simp add: validate_after_await_def)
  qed
qed

lemma validateFeatureFlagKey_settled:
  "fst (validateFeatureFlagKey api k s) =
     s\<lparr>featureFlagKeyValidationError := None,
       featureFlagValidation :=
         (if blank k \<or> \<not> well_formed k then None else returned (validate_after_await k (api k)))\<rparr>"
  by (simp add: validateFeatureFlagKey_def validate_before_await_def loader_settled_values)

text \<open>
  Claim C7 says that the validator, given a key that a registered flag already has, ends in
  the taken state with the reason "already in use", and that it ends with the
  required-field reason on a blank key and with the validation-error reason when the remote
  call fails. The program does not keep any of these reasons. The loader body dispatches
  the reason, but then returns, and the Success action that follows every returning run
  resets \<^verbatim>\<open>featureFlagKeyValidationError\<close>. With the registry holding the flag
  \<^verbatim>\<open>ab\<close>, validating the key \<^verbatim>\<open>ab\<close> dispatches the reason, makes the request and
  leaves \<^verbatim>\<open>{ available: false }\<close> as the loader's value, with no reason; validating a
  blank key dispatches the required-field reason, makes no request and leaves no reason
  either.
\<close>

theorem validateFeatureFlagKey_reason_lost:
  "dispatched (validate_after_await (js ''ab'') registry_ab)
     = [validateFeatureFlagKeyFailure ''This feature flag key is already in use'']
   \<and> validateFeatureFlagKey (\<lambda>_. registry_ab) (js ''ab'') initial_values
     = (initial_values\<lparr>featureFlagKeyValidationError := None, featureFlagValidation := Some False\<rparr>,
        [ApiGet (js ''ab'')])
   \<and> featureFlagKeyValidationError
        (fst (validateFeatureFlagKey (\<lambda>_. registry_ab) (js ''ab'') initial_values)) = None
   \<and> dispatched (projl (validate_before_await (js '' '')))
     = [validateFeatureFlagKeyFailure ''Feature flag key is required'']
   \<and> validateFeatureFlagKey (\<lambda>_. registry_ab) (js '' '') initial_values
     = (initial_values\<lparr>featureFlagKeyValidationError := None, featureFlagValidation := None\<rparr>, [])"
  by (simp add: validator_eval)

section \<open>Uniqueness validation: overlapping requests\<close>


text \<open>
  Split into its two events, with nothing else in between, the loader run leaves the same
  values as the run in one piece.
\<close>

lemma two_events_one_run:
  assumes "in_flight s = []"
  shows "run s [ValidateFeatureFlagKey k, Response (loader_calls s) (api k)]
     = (fst (validateFeatureFlagKey api k s))\<lparr>loader_calls := loader_calls s + 1\<rparr>"
proof (cases "validate_before_await k")
  case (Inl r)
  with assms show ?thesis
    by (simp add: run_def start_validateFeatureFlagKey_def finish_validateFeatureFlagKey_def
        validateFeatureFlagKey_def loader_settled_values Let_def)
next
  case (Inr q)
  then have "q = k" by (simp add: validate_before_await_def split: if_splits)
  with Inr assms show ?thesis
    by (simp add: run_def start_validateFeatureFlagKey_def finish_validateFeatureFlagKey_def
        validateFeatureFlagKey_def loader_settled_values Let_def)
qed





section \<open>Saving: the gate\<close>










end
